theory Spec2Isabelle
  imports Main "HOL-Library.Sublist"
begin

section \<open>Data model (src/MongoDBTransaction.ts, lines 3-25)\<close>

text \<open>
  A \<^verbatim>\<open>Record<string, unknown>\<close> is an association list from property names to values.
  \<^verbatim>\<open>CollectionData\<close> has two properties, \<^verbatim>\<open>index\<close> and \<^verbatim>\<open>insert\<close>; its type makes one of
  them required and leaves the other optional, so each of them can be absent at run time
  (\<open>None\<close>). The record field for \<^verbatim>\<open>insert\<close> is written \<open>insert'\<close>.
\<close>

datatype jsval = JNull | JBool bool | JNum int | JStr string

type_synonym document = "(string \<times> jsval) list"

record CollectionData =
  index :: "document option"
  insert' :: "document option"

record Collector =
  collectionName :: string
  data :: CollectionData

text \<open>
  \<^verbatim>\<open>OperationType\<close> is a string enum: at run time an operation type is a string, and the
  three members are the strings below.
\<close>

type_synonym OperationType = string

definition OperationType_Create :: OperationType where
  "OperationType_Create = ''CREATE''"

definition OperationType_Update :: OperationType where
  "OperationType_Update = ''UPDATE''"

definition OperationType_Delete :: OperationType where
  "OperationType_Delete = ''DELETE''"

record Operation =
  operationType :: OperationType
  collectors :: "Collector list"

text \<open>
  The object spread \<^verbatim>\<open>{ ...x }\<close> of lines 110, 132, 133 and 153: the own properties of
  \<^verbatim>\<open>x\<close>, and the empty object when \<^verbatim>\<open>x\<close> is \<^verbatim>\<open>undefined\<close>.
\<close>

definition spread :: "document option \<Rightarrow> document" where
  "spread x = (case x of None \<Rightarrow> [] | Some d \<Rightarrow> d)"

section \<open>The driver\<close>

text \<open>
  The code runs against the \<^verbatim>\<open>mongodb\<close> driver, which is not part of the repository. A
  \<open>call\<close> is one invocation of a driver method, with the arguments the code passes. The
  write methods carry the session of their \<^verbatim>\<open>{ session }\<close> option as last argument, and
  the update document \<^verbatim>\<open>{ $set: d }\<close> is \<open>Dollar_set d\<close>.
\<close>

type_synonym session = nat

datatype update_doc = Dollar_set document

datatype call =
    Connect
  | StartSession
  | StartTransaction session
  | Db string
  | Collection string string
  | InsertOne string string document session
  | UpdateOne string string document update_doc session
  | DeleteOne string string document session
  | CommitTransaction session
  | AbortTransaction session

datatype error = Thrown string

text \<open>
  The driver is a parameter of the model. \<open>outcome drv h c\<close> is how the call \<open>c\<close> ends when
  the calls \<open>h\<close> were issued before it: \<open>None\<close> when it returns (or its promise is
  fulfilled), \<open>Some e\<close> when it throws \<open>e\<close> (or its promise is rejected with \<open>e\<close>).
  \<open>new_session drv h\<close> is the session that \<^verbatim>\<open>startSession()\<close> returns after \<open>h\<close>.
\<close>

record driver =
  outcome :: "call list \<Rightarrow> call \<Rightarrow> error option"
  new_session :: "call list \<Rightarrow> session"

text \<open>
  What a run leaves behind: the driver calls in the order the code issued them, and the
  rejections of the promises that nothing awaits.
\<close>

record world =
  trace :: "call list"
  unhandled :: "error list"

definition issue :: "driver \<Rightarrow> call \<Rightarrow> world \<Rightarrow> error option \<times> world" where
  "issue drv c w = (outcome drv (trace w) c, w\<lparr>trace := trace w @ [c]\<rparr>)"

text \<open>A promise that is neither awaited nor returned: its rejection reaches no handler.\<close>

definition drop_promise :: "error option \<Rightarrow> world \<Rightarrow> world" where
  "drop_promise r w = (case r of None \<Rightarrow> w | Some e \<Rightarrow> w\<lparr>unhandled := unhandled w @ [e]\<rparr>)"

section \<open>The three handlers (lines 102-157)\<close>

text \<open>
  Each handler takes the database handle and loops over the collectors; for each one it
  takes the collection handle and calls the write method, whose promise it drops. An
  exception of \<^verbatim>\<open>db\<close> or \<^verbatim>\<open>collection\<close> leaves the handler at once. The result \<open>Some e\<close> is
  that exception: thrown to the caller by \<^verbatim>\<open>update\<close> and \<^verbatim>\<open>delete\<close>, and the rejection of
  the returned promise for \<^verbatim>\<open>create\<close>, which is an \<^verbatim>\<open>async\<close> function.
\<close>

fun create_loop :: "driver \<Rightarrow> string \<Rightarrow> Collector list \<Rightarrow> session \<Rightarrow> world \<Rightarrow> error option \<times> world" where
  "create_loop drv dbName [] s w = (None, w)"
| "create_loop drv dbName (c # cs) s w =
     (case issue drv (Collection dbName (collectionName c)) w of
        (Some e, w1) \<Rightarrow> (Some e, w1)
      | (None, w1) \<Rightarrow>
          (case issue drv (InsertOne dbName (collectionName c) (spread (insert' (data c))) s) w1 of
             (r, w2) \<Rightarrow> create_loop drv dbName cs s (drop_promise r w2)))"

definition create :: "driver \<Rightarrow> string \<Rightarrow> Collector list \<Rightarrow> session \<Rightarrow> world \<Rightarrow> error option \<times> world" where
  "create drv dbName cs s w =
     (case issue drv (Db dbName) w of
        (Some e, w1) \<Rightarrow> (Some e, w1)
      | (None, w1) \<Rightarrow> create_loop drv dbName cs s w1)"

fun update_loop :: "driver \<Rightarrow> string \<Rightarrow> Collector list \<Rightarrow> session \<Rightarrow> world \<Rightarrow> error option \<times> world" where
  "update_loop drv dbName [] s w = (None, w)"
| "update_loop drv dbName (c # cs) s w =
     (case issue drv (Collection dbName (collectionName c)) w of
        (Some e, w1) \<Rightarrow> (Some e, w1)
      | (None, w1) \<Rightarrow>
          (case issue drv (UpdateOne dbName (collectionName c) (spread (index (data c)))
                            (Dollar_set (spread (insert' (data c)))) s) w1 of
             (r, w2) \<Rightarrow> update_loop drv dbName cs s (drop_promise r w2)))"

definition update :: "driver \<Rightarrow> string \<Rightarrow> Collector list \<Rightarrow> session \<Rightarrow> world \<Rightarrow> error option \<times> world" where
  "update drv dbName cs s w =
     (case issue drv (Db dbName) w of
        (Some e, w1) \<Rightarrow> (Some e, w1)
      | (None, w1) \<Rightarrow> update_loop drv dbName cs s w1)"

fun delete_loop :: "driver \<Rightarrow> string \<Rightarrow> Collector list \<Rightarrow> session \<Rightarrow> world \<Rightarrow> error option \<times> world" where
  "delete_loop drv dbName [] s w = (None, w)"
| "delete_loop drv dbName (c # cs) s w =
     (case issue drv (Collection dbName (collectionName c)) w of
        (Some e, w1) \<Rightarrow> (Some e, w1)
      | (None, w1) \<Rightarrow>
          (case issue drv (DeleteOne dbName (collectionName c) (spread (index (data c))) s) w1 of
             (r, w2) \<Rightarrow> delete_loop drv dbName cs s (drop_promise r w2)))"

definition delete :: "driver \<Rightarrow> string \<Rightarrow> Collector list \<Rightarrow> session \<Rightarrow> world \<Rightarrow> error option \<times> world" where
  "delete drv dbName cs s w =
     (case issue drv (Db dbName) w of
        (Some e, w1) \<Rightarrow> (Some e, w1)
      | (None, w1) \<Rightarrow> delete_loop drv dbName cs s w1)"

section \<open>createTransaction (lines 69-93)\<close>

text \<open>
  The loop of lines 75-87. The promise of \<^verbatim>\<open>this.create\<close> is dropped; \<^verbatim>\<open>this.update\<close> and
  \<^verbatim>\<open>this.delete\<close> are ordinary calls, so what they throw leaves the loop. The \<^verbatim>\<open>switch\<close>
  has no \<^verbatim>\<open>default\<close>: any other operation type falls through to the next iteration.
\<close>

fun dispatch :: "driver \<Rightarrow> string \<Rightarrow> Operation list \<Rightarrow> session \<Rightarrow> world \<Rightarrow> error option \<times> world" where
  "dispatch drv dbName [] s w = (None, w)"
| "dispatch drv dbName (operation # operations) s w =
     (if operationType operation = OperationType_Create then
        (case create drv dbName (collectors operation) s w of
           (r, w1) \<Rightarrow> dispatch drv dbName operations s (drop_promise r w1))
      else if operationType operation = OperationType_Update then
        (case update drv dbName (collectors operation) s w of
           (Some e, w1) \<Rightarrow> (Some e, w1)
         | (None, w1) \<Rightarrow> dispatch drv dbName operations s w1)
      else if operationType operation = OperationType_Delete then
        (case delete drv dbName (collectors operation) s w of
           (Some e, w1) \<Rightarrow> (Some e, w1)
         | (None, w1) \<Rightarrow> dispatch drv dbName operations s w1)
      else dispatch drv dbName operations s w)"

text \<open>The \<^verbatim>\<open>try\<close> block of lines 74-88: the loop, then the awaited commit.\<close>

definition try_block :: "driver \<Rightarrow> string \<Rightarrow> Operation list \<Rightarrow> session \<Rightarrow> world \<Rightarrow> error option \<times> world" where
  "try_block drv dbName operations s w =
     (case dispatch drv dbName operations s w of
        (Some e, w1) \<Rightarrow> (Some e, w1)
      | (None, w1) \<Rightarrow> issue drv (CommitTransaction s) w1)"

text \<open>
  The whole method. The three calls of lines 70-72 stand before the \<^verbatim>\<open>try\<close>: what they
  throw reaches the caller directly. The \<^verbatim>\<open>catch\<close> of lines 89-92 awaits the abort and
  rethrows the caught error; when the abort itself is rejected, that rejection leaves
  the \<^verbatim>\<open>catch\<close> block instead. \<open>Inr ()\<close> is the promise of the method fulfilled, \<open>Inl e\<close> is
  that promise rejected with \<open>e\<close>.
\<close>

definition createTransaction :: "driver \<Rightarrow> string \<Rightarrow> Operation list \<Rightarrow> world \<Rightarrow> (error + unit) \<times> world" where
  "createTransaction drv dbName operations w =
     (case issue drv Connect w of
        (Some e, w1) \<Rightarrow> (Inl e, w1)
      | (None, w1) \<Rightarrow>
          (let s = new_session drv (trace w1) in
           case issue drv StartSession w1 of
             (Some e, w2) \<Rightarrow> (Inl e, w2)
           | (None, w2) \<Rightarrow>
               (case issue drv (StartTransaction s) w2 of
                  (Some e, w3) \<Rightarrow> (Inl e, w3)
                | (None, w3) \<Rightarrow>
                    (case try_block drv dbName operations s w3 of
                       (None, w4) \<Rightarrow> (Inr (), w4)
                     | (Some e, w4) \<Rightarrow>
                         (case issue drv (AbortTransaction s) w4 of
                            (Some e', w5) \<Rightarrow> (Inl e', w5)
                          | (None, w5) \<Rightarrow> (Inl e, w5))))))"

section \<open>getInstance (lines 44-61)\<close>

text \<open>
  The class keeps one static field, \<^verbatim>\<open>Transaction.instance\<close>, unset until the first call.
  Objects live in a heap (the list \<open>objects\<close>, a reference is a position in it), so that
  "the same instance" is the same reference. The constructor stores the URI and builds
  the client from it; \<open>parse\<close> stands for the driver's check of the connection string
  in \<^verbatim>\<open>new MongoClient(uri)\<close>, which may throw.
\<close>

datatype MongoClient = MongoClient string

record Transaction =
  mongodbUri :: string
  client :: MongoClient

type_synonym ref = nat

record statics =
  static_instance :: "ref option"
  objects :: "Transaction list"

definition initial_statics :: statics where
  "initial_statics = \<lparr>static_instance = None, objects = []\<rparr>"

definition new_Transaction :: "(string \<Rightarrow> error option) \<Rightarrow> string \<Rightarrow> error + Transaction" where
  "new_Transaction parse uri =
     (case parse uri of
        Some e \<Rightarrow> Inl e
      | None \<Rightarrow> Inr \<lparr>mongodbUri = uri, client = MongoClient uri\<rparr>)"

definition getInstance :: "(string \<Rightarrow> error option) \<Rightarrow> string \<Rightarrow> statics \<Rightarrow> (error + ref) \<times> statics" where
  "getInstance parse uri st =
     (case static_instance st of
        Some r \<Rightarrow> (Inr r, st)
      | None \<Rightarrow>
          (case new_Transaction parse uri of
             Inl e \<Rightarrow> (Inl e, st)
           | Inr t \<Rightarrow>
               (let r = length (objects st)
                in (Inr r, \<lparr>static_instance = Some r, objects = objects st @ [t]\<rparr>))))"

text \<open>A sequence of calls, one per URI, with the list of their results.\<close>

fun getInstances :: "(string \<Rightarrow> error option) \<Rightarrow> string list \<Rightarrow> statics \<Rightarrow> (error + ref) list \<times> statics" where
  "getInstances parse [] st = ([], st)"
| "getInstances parse (u # us) st =
     (case getInstance parse u st of
        (r, st1) \<Rightarrow> (case getInstances parse us st1 of (rs, st2) \<Rightarrow> (r # rs, st2)))"

section \<open>Vocabulary of the properties\<close>

text \<open>The calls that one run added to the trace.\<close>

definition issued :: "world \<Rightarrow> world \<Rightarrow> call list" where
  "issued w w' = drop (length (trace w)) (trace w')"

text \<open>The session that \<^verbatim>\<open>startSession()\<close> returns in a run started in \<open>w\<close>: the one
  the driver hands out after the connection.\<close>

definition run_session :: "driver \<Rightarrow> world \<Rightarrow> session" where
  "run_session drv w = new_session drv (trace w @ [Connect])"

text \<open>The backend writes are the three collection methods; all other calls are local
  handles or session control.\<close>

fun is_write :: "call \<Rightarrow> bool" where
  "is_write (InsertOne d n x s) = True"
| "is_write (UpdateOne d n f u s) = True"
| "is_write (DeleteOne d n f s) = True"
| "is_write c = False"

text \<open>
  A driver is \<open>quiet\<close> when every call whose outcome the code can observe succeeds:
  the connection, the session calls and the handles. The promises of the writes may
  still be rejected.
\<close>

definition quiet :: "driver \<Rightarrow> bool" where
  "quiet drv = (\<forall>h c. \<not> is_write c \<longrightarrow> outcome drv h c = None)"

text \<open>
  A driver is \<open>flawless\<close> when every call succeeds, the writes included: no
  exception is thrown and no promise is rejected.
\<close>

definition flawless :: "driver \<Rightarrow> bool" where
  "flawless drv = (\<forall>h c. outcome drv h c = None)"

text \<open>
  The write that the specification describes for one item of an operation of type \<open>t\<close>:
  an insert of the payload, a \<^verbatim>\<open>$set\<close> of the payload on one document matching the
  selector, or the removal of one document matching the selector; each in the session.
\<close>

definition write_of :: "OperationType \<Rightarrow> string \<Rightarrow> session \<Rightarrow> Collector \<Rightarrow> call" where
  "write_of t dbName s c =
     (if t = OperationType_Create then
        InsertOne dbName (collectionName c) (spread (insert' (data c))) s
      else if t = OperationType_Update then
        UpdateOne dbName (collectionName c) (spread (index (data c)))
          (Dollar_set (spread (insert' (data c)))) s
      else DeleteOne dbName (collectionName c) (spread (index (data c))) s)"

text \<open>
  The shape that the three handlers share: the database handle, then for each item
  the collection handle and the write, whose promise is dropped.
\<close>

fun item_loop :: "driver \<Rightarrow> (Collector \<Rightarrow> call) \<Rightarrow> (Collector \<Rightarrow> call) \<Rightarrow> Collector list \<Rightarrow> world \<Rightarrow> error option \<times> world" where
  "item_loop drv handle write [] w = (None, w)"
| "item_loop drv handle write (c # cs) w =
     (case issue drv (handle c) w of
        (Some e, w1) \<Rightarrow> (Some e, w1)
      | (None, w1) \<Rightarrow>
          (case issue drv (write c) w1 of
             (r, w2) \<Rightarrow> item_loop drv handle write cs (drop_promise r w2)))"

definition handler :: "driver \<Rightarrow> OperationType \<Rightarrow> string \<Rightarrow> Collector list \<Rightarrow> session \<Rightarrow> world \<Rightarrow> error option \<times> world" where
  "handler drv t dbName cs s w =
     (case issue drv (Db dbName) w of
        (Some e, w1) \<Rightarrow> (Some e, w1)
      | (None, w1) \<Rightarrow>
          item_loop drv (\<lambda>c. Collection dbName (collectionName c)) (write_of t dbName s) cs w1)"

text \<open>
  Two drivers that differ at most in how the writes end: they hand out the same
  sessions and answer every other call alike.
\<close>

definition same_observed :: "driver \<Rightarrow> driver \<Rightarrow> bool" where
  "same_observed drv drv' =
     (new_session drv = new_session drv' \<and>
      (\<forall>h c. \<not> is_write c \<longrightarrow> outcome drv h c = outcome drv' h c))"

definition item_calls :: "OperationType \<Rightarrow> string \<Rightarrow> session \<Rightarrow> Collector \<Rightarrow> call list" where
  "item_calls t dbName s c = [Collection dbName (collectionName c), write_of t dbName s c]"

definition known :: "OperationType \<Rightarrow> bool" where
  "known t = (t = OperationType_Create \<or> t = OperationType_Update \<or> t = OperationType_Delete)"

definition operation_calls :: "string \<Rightarrow> session \<Rightarrow> Operation \<Rightarrow> call list" where
  "operation_calls dbName s operation =
     (if known (operationType operation) then
        Db dbName # concat (map (item_calls (operationType operation) dbName s) (collectors operation))
      else [])"

definition operation_writes :: "string \<Rightarrow> session \<Rightarrow> Operation \<Rightarrow> call list" where
  "operation_writes dbName s operation =
     (if known (operationType operation) then
        map (write_of (operationType operation) dbName s) (collectors operation)
      else [])"

text \<open>
  The structural invariant of the specification's data model: an insert item has a
  payload, an update item has a selector and a payload, a delete item has a selector.
\<close>

definition spec_item_valid :: "OperationType \<Rightarrow> Collector \<Rightarrow> bool" where
  "spec_item_valid t c =
     (if t = OperationType_Create then insert' (data c) \<noteq> None
      else if t = OperationType_Update then index (data c) \<noteq> None \<and> insert' (data c) \<noteq> None
      else index (data c) \<noteq> None)"


section \<open>Concrete drivers and inputs\<close>

definition w0 :: world where
  "w0 = \<lparr>trace = [], unhandled = []\<rparr>"

text \<open>A driver on which every call succeeds; a session is named by the number of calls
  before it.\<close>

definition ok_driver :: driver where
  "ok_driver = \<lparr>outcome = (\<lambda>h c. None), new_session = length\<rparr>"

text \<open>A driver on which the backend rejects every write (the promise of each write
  method is rejected with \<open>e\<close>) and every other call succeeds.\<close>

definition rejecting_writes :: "error \<Rightarrow> driver" where
  "rejecting_writes e =
     \<lparr>outcome = (\<lambda>h c. if is_write c then Some e else None), new_session = length\<rparr>"

text \<open>A driver on which the backend rejects the deletes only.\<close>

definition rejecting_deletes :: "error \<Rightarrow> driver" where
  "rejecting_deletes e =
     \<lparr>outcome = (\<lambda>h c. case c of DeleteOne d n f s \<Rightarrow> Some e | _ \<Rightarrow> None), new_session = length\<rparr>"

definition mk_operation :: "OperationType \<Rightarrow> Collector list \<Rightarrow> Operation" where
  "mk_operation t cs = \<lparr>operationType = t, collectors = cs\<rparr>"

text \<open>A driver that refuses the empty collection name: \<^verbatim>\<open>db.collection('')\<close> throws \<open>e\<close>,
  every other call succeeds.\<close>

definition throwing_collection :: "error \<Rightarrow> driver" where
  "throwing_collection e =
     \<lparr>outcome = (\<lambda>h c. case c of Collection d n \<Rightarrow> (if n = [] then Some e else None) | _ \<Rightarrow> None),
      new_session = length\<rparr>"

definition item :: "string \<Rightarrow> document option \<Rightarrow> document option \<Rightarrow> Collector" where
  "item name sel payload = \<lparr>collectionName = name, data = \<lparr>index = sel, insert' = payload\<rparr>\<rparr>"

definition ann :: document where
  "ann = [(''name'', JStr ''Ann'')]"

definition pending :: document where
  "pending = [(''status'', JStr ''pending'')]"

definition done' :: document where
  "done' = [(''status'', JStr ''done'')]"

section \<open>General facts about the handlers and the loop\<close>

lemma trace_drop_promise [simp]: "trace (drop_promise r w) = trace w"
  by (simp add: drop_promise_def split: option.splits)

lemma issue_quiet:
  "quiet drv \<Longrightarrow> \<not> is_write c \<Longrightarrow> issue drv c w = (None, w\<lparr>trace := trace w @ [c]\<rparr>)"
  by (simp add: issue_def quiet_def)

lemma issued_append: "trace w' = trace w @ xs \<Longrightarrow> issued w w' = xs"
  by (simp add: issued_def)

lemma is_write_write_of [simp]: "is_write (write_of t dbName s c)"
  by (simp add: write_of_def)

subsection \<open>The handlers as one loop\<close>

lemma create_loop_item_loop:
  "create_loop drv dbName cs s w =
   item_loop drv (\<lambda>c. Collection dbName (collectionName c)) (write_of OperationType_Create dbName s) cs w"
  by (induction cs arbitrary: w) (simp_all add: write_of_def split: prod.splits option.splits)

lemma update_loop_item_loop:
  "update_loop drv dbName cs s w =
   item_loop drv (\<lambda>c. Collection dbName (collectionName c)) (write_of OperationType_Update dbName s) cs w"
  by (induction cs arbitrary: w)
     (simp_all add: write_of_def OperationType_Create_def OperationType_Update_def
        split: prod.splits option.splits)

lemma delete_loop_item_loop:
  "delete_loop drv dbName cs s w =
   item_loop drv (\<lambda>c. Collection dbName (collectionName c)) (write_of OperationType_Delete dbName s) cs w"
  by (induction cs arbitrary: w)
     (simp_all add: write_of_def OperationType_Create_def OperationType_Update_def
        OperationType_Delete_def split: prod.splits option.splits)

lemma create_handler: "create drv dbName cs s w = handler drv OperationType_Create dbName cs s w"
  by (simp add: create_def handler_def create_loop_item_loop split: prod.splits option.splits)

lemma update_handler: "update drv dbName cs s w = handler drv OperationType_Update dbName cs s w"
  by (simp add: update_def handler_def update_loop_item_loop split: prod.splits option.splits)

lemma delete_handler: "delete drv dbName cs s w = handler drv OperationType_Delete dbName cs s w"
  by (simp add: delete_def handler_def delete_loop_item_loop split: prod.splits option.splits)

text \<open>The loop over a concatenation: the second part runs unless the first part threw.\<close>

lemma dispatch_append:
  "dispatch drv dbName (xs @ ys) s w =
     (case dispatch drv dbName xs s w of
        (Some e, w1) \<Rightarrow> (Some e, w1)
      | (None, w1) \<Rightarrow> dispatch drv dbName ys s w1)"
  by (induction xs arbitrary: w) (simp_all split: prod.splits option.splits)

lemma dispatch_unknown:
  "\<not> known (operationType opn) \<Longrightarrow>
   dispatch drv dbName (opn # ops) s w = dispatch drv dbName ops s w"
  by (simp add: known_def)



subsection \<open>Runs on a quiet driver\<close>

text \<open>
  On a quiet driver no handler throws, and each handler adds to the trace its database
  handle and the two calls of every item, in order.
\<close>

lemma item_loop_quiet:
  assumes q: "quiet drv" and h: "\<And>c. \<not> is_write (handle c)"
  shows "fst (item_loop drv handle write cs w) = None \<and>
    trace (snd (item_loop drv handle write cs w)) =
      trace w @ concat (map (\<lambda>c. [handle c, write c]) cs)"
proof (induction cs arbitrary: w)
  case Nil
  show ?case by simp
next
  case (Cons c cs)
  have "outcome drv (trace w) (handle c) = None"
    using q h [of c] by (simp add: quiet_def)
  with Cons.IH show ?case
    by (simp add: issue_def)
qed

lemma handler_quiet:
  assumes q: "quiet drv"
  shows "fst (handler drv t dbName cs s w) = None \<and>
    trace (snd (handler drv t dbName cs s w)) =
      trace w @ Db dbName # concat (map (item_calls t dbName s) cs)"
proof -
  have "item_calls t dbName s = (\<lambda>c. [Collection dbName (collectionName c), write_of t dbName s c])"
    by (simp add: fun_eq_iff item_calls_def)
  with item_loop_quiet [OF q, of "\<lambda>c. Collection dbName (collectionName c)"
      "write_of t dbName s" cs "w\<lparr>trace := trace w @ [Db dbName]\<rparr>"]
  show ?thesis
    by (simp add: handler_def issue_quiet [OF q])
qed

lemma dispatch_quiet:
  assumes q: "quiet drv"
  shows "fst (dispatch drv dbName ops s w) = None \<and>
    trace (snd (dispatch drv dbName ops s w)) =
      trace w @ concat (map (operation_calls dbName s) ops)"
proof (induction ops arbitrary: w)
  case Nil
  show ?case by simp
next
  case (Cons opn ops)
  let ?h = "handler drv (operationType opn) dbName (collectors opn) s w"
  show ?case
  proof (cases "known (operationType opn)")
    case True
    have h: "fst ?h = None" "trace (snd ?h) = trace w @ operation_calls dbName s opn"
      using handler_quiet [OF q, of "operationType opn" dbName "collectors opn" s w] True
      by (simp_all add: operation_calls_def)
    show ?thesis
    proof (cases "operationType opn = OperationType_Create")
      case True
      with h Cons.IH [of "drop_promise (fst ?h) (snd ?h)"] show ?thesis
        by (simp add: create_handler case_prod_beta)
    next
      case False
      with h Cons.IH [of "snd ?h"] \<open>known (operationType opn)\<close> show ?thesis
        by (auto simp: known_def update_handler delete_handler case_prod_beta)
    qed
  next
    case False
    with Cons.IH [of w] show ?thesis
      by (simp add: known_def operation_calls_def)
  qed
qed

text \<open>
  The whole run on a quiet driver: it resolves, and it issued the connection, the
  session and its transaction, the calls of every operation in list order, and the
  commit.
\<close>

lemma createTransaction_quiet:
  assumes q: "quiet drv"
  shows "fst (createTransaction drv dbName ops w) = Inr () \<and>
    issued w (snd (createTransaction drv dbName ops w)) =
      [Connect, StartSession, StartTransaction (run_session drv w)]
        @ concat (map (operation_calls dbName (run_session drv w)) ops)
        @ [CommitTransaction (run_session drv w)]"
proof -
  let ?s = "run_session drv w"
  let ?w3 = "w\<lparr>trace := trace w @ [Connect, StartSession, StartTransaction ?s]\<rparr>"
  obtain r w4 where d: "dispatch drv dbName ops ?s ?w3 = (r, w4)"
    by (cases "dispatch drv dbName ops ?s ?w3")
  with dispatch_quiet [OF q, of dbName ops ?s ?w3]
  have r: "r = None"
    and t: "trace w4 = trace ?w3 @ concat (map (operation_calls dbName ?s) ops)"
    by simp_all
  have "createTransaction drv dbName ops w =
      (Inr (), w4\<lparr>trace := trace w4 @ [CommitTransaction ?s]\<rparr>)"
    using d r
    by (simp add: createTransaction_def try_block_def issue_quiet [OF q] Let_def
        run_session_def)
  with t show ?thesis
    by (simp add: issued_def)
qed

lemma filter_item_calls:
  "filter is_write (concat (map (item_calls t dbName s) cs)) = map (write_of t dbName s) cs"
  by (induction cs) (simp_all add: item_calls_def)

lemma filter_operation_calls:
  "filter is_write (operation_calls dbName s opn) = operation_writes dbName s opn"
  by (simp add: operation_calls_def operation_writes_def filter_item_calls)

lemma filter_concat_operation_calls:
  "filter is_write (concat (map (operation_calls dbName s) ops)) =
   concat (map (operation_writes dbName s) ops)"
  by (induction ops) (simp_all add: filter_operation_calls)

text \<open>
  Where the two calls of one item stand in the run: after the start of the
  transaction of the session they carry, and before its commit.
\<close>

lemma item_calls_issued:
  assumes q: "quiet drv"
    and o: "opn \<in> set ops"
    and k: "known (operationType opn)"
    and c: "c \<in> set (collectors opn)"
  shows "\<exists>bef aft.
    issued w (snd (createTransaction drv dbName ops w)) =
      bef @ item_calls (operationType opn) dbName (run_session drv w) c @ aft \<and>
    StartTransaction (run_session drv w) \<in> set bef \<and>
    CommitTransaction (run_session drv w) \<in> set aft"
proof -
  let ?s = "run_session drv w"
  let ?ic = "item_calls (operationType opn) dbName ?s"
  let ?oc = "operation_calls dbName ?s"
  from o obtain pre post where ops: "ops = pre @ opn # post"
    by (auto simp: in_set_conv_decomp)
  from c obtain cs1 cs2 where cs: "collectors opn = cs1 @ c # cs2"
    by (auto simp: in_set_conv_decomp)
  let ?bef = "[Connect, StartSession, StartTransaction ?s] @ concat (map ?oc pre)
      @ Db dbName # concat (map ?ic cs1)"
  let ?aft = "concat (map ?ic cs2) @ concat (map ?oc post) @ [CommitTransaction ?s]"
  have "?oc opn = Db dbName # concat (map ?ic cs1) @ ?ic c @ concat (map ?ic cs2)"
    using k cs by (simp add: operation_calls_def)
  then have "issued w (snd (createTransaction drv dbName ops w)) = ?bef @ ?ic c @ ?aft"
    using createTransaction_quiet [OF q, of dbName ops w] ops by simp
  moreover have "StartTransaction ?s \<in> set ?bef" by simp
  moreover have "CommitTransaction ?s \<in> set ?aft" by simp
  ultimately show ?thesis by blast
qed

subsection \<open>Runs on a flawless driver\<close>

text \<open>
  When no call fails at all, the run is fixed in full: it resolves, leaves no rejection
  behind, and its last call is the commit.
\<close>

lemma item_loop_flawless:
  assumes f: "flawless drv"
  shows "item_loop drv handle write cs w =
    (None, w\<lparr>trace := trace w @ concat (map (\<lambda>c. [handle c, write c]) cs)\<rparr>)"
proof (induction cs arbitrary: w)
  case Nil
  show ?case by simp
next
  case (Cons c cs)
  have "outcome drv h x = None" for h x
    using f by (simp add: flawless_def)
  with Cons.IH show ?case
    by (simp add: issue_def drop_promise_def)
qed

lemma handler_flawless:
  assumes f: "flawless drv"
  shows "handler drv t dbName cs s w =
    (None, w\<lparr>trace := trace w @ Db dbName # concat (map (item_calls t dbName s) cs)\<rparr>)"
proof -
  have "item_calls t dbName s = (\<lambda>c. [Collection dbName (collectionName c), write_of t dbName s c])"
    by (simp add: fun_eq_iff item_calls_def)
  moreover have "outcome drv h x = None" for h x
    using f by (simp add: flawless_def)
  ultimately show ?thesis
    by (simp add: handler_def issue_def item_loop_flawless [OF f])
qed

lemma dispatch_flawless:
  assumes f: "flawless drv"
  shows "dispatch drv dbName ops s w =
    (None, w\<lparr>trace := trace w @ concat (map (operation_calls dbName s) ops)\<rparr>)"
proof (induction ops arbitrary: w)
  case Nil
  show ?case by simp
next
  case (Cons opn ops)
  show ?case
  proof (cases "known (operationType opn)")
    case True
    with Cons.IH show ?thesis
      by (auto simp: known_def create_handler update_handler delete_handler
          handler_flawless [OF f] operation_calls_def drop_promise_def)
  next
    case False
    with Cons.IH show ?thesis
      by (simp add: known_def operation_calls_def)
  qed
qed

lemma createTransaction_flawless:
  assumes f: "flawless drv"
  shows "createTransaction drv dbName ops w =
    (Inr (), w\<lparr>trace := trace w @ [Connect, StartSession, StartTransaction (run_session drv w)]
        @ concat (map (operation_calls dbName (run_session drv w)) ops)
        @ [CommitTransaction (run_session drv w)]\<rparr>)"
proof -
  have "outcome drv h x = None" for h x
    using f by (simp add: flawless_def)
  then show ?thesis
    by (simp add: createTransaction_def try_block_def issue_def Let_def run_session_def
        dispatch_flawless [OF f])
qed

subsection \<open>The outcomes of the writes change nothing\<close>

text \<open>
  On two drivers that differ only in how the writes end, a run issues the same calls
  and ends in the same way: no rejection of a write is ever seen by the code.
\<close>

lemma item_loop_same:
  assumes so: "same_observed drv drv'" and h: "\<And>c. \<not> is_write (handle c)"
  shows "trace w = trace w' \<Longrightarrow>
   fst (item_loop drv handle write cs w) = fst (item_loop drv' handle write cs w') \<and>
   trace (snd (item_loop drv handle write cs w)) = trace (snd (item_loop drv' handle write cs w'))"
proof (induction cs arbitrary: w w')
  case Nil
  then show ?case by simp
next
  case (Cons c cs)
  have o: "outcome drv (trace w) (handle c) = outcome drv' (trace w') (handle c)"
    using so h [of c] Cons.prems by (simp add: same_observed_def)
  show ?case
  proof (cases "outcome drv (trace w) (handle c)")
    case None
    let ?v = "drop_promise (outcome drv (trace w @ [handle c]) (write c))
        (w\<lparr>trace := trace w @ [handle c, write c]\<rparr>)"
    let ?v' = "drop_promise (outcome drv' (trace w' @ [handle c]) (write c))
        (w'\<lparr>trace := trace w' @ [handle c, write c]\<rparr>)"
    have "trace ?v = trace ?v'"
      using Cons.prems by simp
    from Cons.IH [OF this] None o show ?thesis
      by (simp add: issue_def)
  next
    case (Some e)
    with o Cons.prems show ?thesis
      by (simp add: issue_def)
  qed
qed

lemma handler_same:
  assumes so: "same_observed drv drv'" and t: "trace w = trace w'"
  shows "fst (handler drv t dbName cs s w) = fst (handler drv' t dbName cs s w') \<and>
   trace (snd (handler drv t dbName cs s w)) = trace (snd (handler drv' t dbName cs s w'))"
proof -
  let ?d = "Db dbName"
  have o: "outcome drv (trace w) ?d = outcome drv' (trace w') ?d"
    using so t by (simp add: same_observed_def)
  show ?thesis
  proof (cases "outcome drv (trace w) ?d")
    case None
    have "trace (w\<lparr>trace := trace w @ [?d]\<rparr>) = trace (w'\<lparr>trace := trace w' @ [?d]\<rparr>)"
      using t by simp
    from item_loop_same [OF so _ this, of "\<lambda>c. Collection dbName (collectionName c)"
        "write_of t dbName s" cs] None o
    show ?thesis by (simp add: handler_def issue_def)
  next
    case (Some e)
    with o t show ?thesis by (simp add: handler_def issue_def)
  qed
qed

lemma dispatch_same:
  assumes so: "same_observed drv drv'"
  shows "trace w = trace w' \<Longrightarrow>
   fst (dispatch drv dbName ops s w) = fst (dispatch drv' dbName ops s w') \<and>
   trace (snd (dispatch drv dbName ops s w)) = trace (snd (dispatch drv' dbName ops s w'))"
proof (induction ops arbitrary: w w')
  case Nil
  then show ?case by simp
next
  case (Cons opn ops)
  let ?h = "\<lambda>t. handler drv t dbName (collectors opn) s w"
  let ?h' = "\<lambda>t. handler drv' t dbName (collectors opn) s w'"
  have hs: "fst (?h t) = fst (?h' t) \<and> trace (snd (?h t)) = trace (snd (?h' t))" for t
    using handler_same [OF so Cons.prems] .
  show ?case
  proof (cases "operationType opn = OperationType_Create")
    case True
    have "trace (drop_promise (fst (?h OperationType_Create)) (snd (?h OperationType_Create))) =
        trace (drop_promise (fst (?h' OperationType_Create)) (snd (?h' OperationType_Create)))"
      using hs by simp
    from Cons.IH [OF this] True show ?thesis
      by (simp add: create_handler case_prod_beta)
  next
    case notC: False
    show ?thesis
    proof (cases "operationType opn = OperationType_Update")
      case True
      show ?thesis
      proof (cases "fst (?h OperationType_Update)")
        case None
        then have "fst (?h' OperationType_Update) = None"
          using hs [of OperationType_Update] by simp
        with None hs [of OperationType_Update] Cons.IH [of "snd (?h OperationType_Update)" "snd (?h' OperationType_Update)"]
          notC True
        show ?thesis
          by (simp add: update_handler case_prod_beta)
      next
        case (Some e)
        then have "fst (?h' OperationType_Update) = Some e"
          using hs [of OperationType_Update] by simp
        with Some hs [of OperationType_Update] notC True show ?thesis
          by (simp add: update_handler case_prod_beta)
      qed
    next
      case notU: False
      show ?thesis
      proof (cases "operationType opn = OperationType_Delete")
        case True
        show ?thesis
        proof (cases "fst (?h OperationType_Delete)")
          case None
          then have "fst (?h' OperationType_Delete) = None"
            using hs [of OperationType_Delete] by simp
          with None hs [of OperationType_Delete] Cons.IH [of "snd (?h OperationType_Delete)" "snd (?h' OperationType_Delete)"]
            notC notU True
          show ?thesis
            by (simp add: delete_handler case_prod_beta)
        next
          case (Some e)
          then have "fst (?h' OperationType_Delete) = Some e"
            using hs [of OperationType_Delete] by simp
          with Some hs [of OperationType_Delete] notC notU True show ?thesis
            by (simp add: delete_handler case_prod_beta)
        qed
      next
        case False
        with notC notU Cons.IH [OF Cons.prems] show ?thesis by simp
      qed
    qed
  qed
qed

lemma try_block_same:
  assumes so: "same_observed drv drv'" and t: "trace w = trace w'"
  shows "fst (try_block drv dbName ops s w) = fst (try_block drv' dbName ops s w') \<and>
   trace (snd (try_block drv dbName ops s w)) = trace (snd (try_block drv' dbName ops s w'))"
proof -
  let ?d = "dispatch drv dbName ops s w" and ?d' = "dispatch drv' dbName ops s w'"
  have d: "fst ?d = fst ?d'" "trace (snd ?d) = trace (snd ?d')"
    using dispatch_same [OF so t] by simp_all
  have o: "outcome drv h (CommitTransaction s) = outcome drv' h (CommitTransaction s)" for h
    using so by (simp add: same_observed_def)
  show ?thesis
  proof (cases "fst ?d")
    case None
    with d have "fst ?d' = None" by simp
    with None d o show ?thesis
      by (simp add: try_block_def case_prod_beta issue_def)
  next
    case (Some e)
    with d have "fst ?d' = Some e" by simp
    with Some d show ?thesis
      by (simp add: try_block_def case_prod_beta)
  qed
qed

lemma write_outcomes_change_nothing:
  assumes so: "same_observed drv drv'" and t: "trace w = trace w'"
  shows "fst (createTransaction drv dbName ops w) = fst (createTransaction drv' dbName ops w') \<and>
   trace (snd (createTransaction drv dbName ops w)) =
   trace (snd (createTransaction drv' dbName ops w'))"
proof -
  let ?s = "new_session drv (trace w' @ [Connect])"
  let ?tr = "trace w' @ [Connect, StartSession, StartTransaction ?s]"
  let ?t = "try_block drv dbName ops ?s (w\<lparr>trace := ?tr\<rparr>)"
  let ?t' = "try_block drv' dbName ops ?s (w'\<lparr>trace := ?tr\<rparr>)"
  have ns: "new_session drv' = new_session drv"
    using so by (simp add: same_observed_def)
  have oc: "outcome drv' h c = outcome drv h c" if "\<not> is_write c" for h c
    using so that by (simp add: same_observed_def)
  have tb: "fst ?t' = fst ?t" "trace (snd ?t') = trace (snd ?t)"
    using try_block_same [OF so, of "w\<lparr>trace := ?tr\<rparr>" "w'\<lparr>trace := ?tr\<rparr>" dbName ops ?s]
    by simp_all
  show ?thesis
    using t tb
    by (simp add: createTransaction_def issue_def Let_def case_prod_beta ns oc
        split: option.splits)
qed

subsection \<open>The writes of a run, on any driver\<close>

text \<open>
  Whatever the driver answers, the writes of a run are issued in list order: they are
  a subsequence of the writes of all items, the missing ones being those that an
  exception cut off.
\<close>

lemma item_loop_writes:
  assumes h: "\<And>c. \<not> is_write (handle c)"
  shows "\<exists>xs. trace (snd (item_loop drv handle write cs w)) = trace w @ xs \<and>
    subseq (filter is_write xs) (map write cs)"
proof (induction cs arbitrary: w)
  case Nil
  then show ?case by simp
next
  case (Cons c cs)
  show ?case
  proof (cases "outcome drv (trace w) (handle c)")
    case None
    let ?v = "drop_promise (outcome drv (trace w @ [handle c]) (write c))
        (w\<lparr>trace := trace w @ [handle c, write c]\<rparr>)"
    from Cons.IH [of ?v] obtain xs where
      xs: "trace (snd (item_loop drv handle write cs ?v)) = trace ?v @ xs"
        "subseq (filter is_write xs) (map write cs)"
      by blast
    have "trace (snd (item_loop drv handle write (c # cs) w)) = trace w @ ([handle c, write c] @ xs)"
      using None xs(1) by (simp add: issue_def)
    moreover have "subseq (filter is_write ([handle c, write c] @ xs)) (map write (c # cs))"
      using xs(2) h [of c] by auto
    ultimately show ?thesis by blast
  next
    case (Some e)
    have "trace (snd (item_loop drv handle write (c # cs) w)) = trace w @ [handle c]"
      using Some by (simp add: issue_def)
    moreover have "subseq (filter is_write [handle c]) (map write (c # cs))"
      using h [of c] by simp
    ultimately show ?thesis by blast
  qed
qed

lemma handler_writes:
  "\<exists>xs. trace (snd (handler drv t dbName cs s w)) = trace w @ xs \<and>
    subseq (filter is_write xs) (map (write_of t dbName s) cs)"
proof (cases "outcome drv (trace w) (Db dbName)")
  case None
  let ?v = "w\<lparr>trace := trace w @ [Db dbName]\<rparr>"
  let ?l = "item_loop drv (\<lambda>c. Collection dbName (collectionName c)) (write_of t dbName s) cs ?v"
  obtain xs where xs: "trace (snd ?l) = trace ?v @ xs"
      "subseq (filter is_write xs) (map (write_of t dbName s) cs)"
    using item_loop_writes [of "\<lambda>c. Collection dbName (collectionName c)" drv "write_of t dbName s" cs ?v]
    by auto
  have "trace (snd (handler drv t dbName cs s w)) = trace w @ (Db dbName # xs)"
    using None xs(1) by (simp add: handler_def issue_def)
  moreover have "subseq (filter is_write (Db dbName # xs)) (map (write_of t dbName s) cs)"
    using xs(2) by simp
  ultimately show ?thesis by blast
next
  case (Some e)
  have "trace (snd (handler drv t dbName cs s w)) = trace w @ [Db dbName]"
    using Some by (simp add: handler_def issue_def)
  moreover have "subseq (filter is_write [Db dbName]) (map (write_of t dbName s) cs)"
    by simp
  ultimately show ?thesis by blast
qed

lemma dispatch_writes:
  "\<exists>xs. trace (snd (dispatch drv dbName ops s w)) = trace w @ xs \<and>
    subseq (filter is_write xs) (concat (map (operation_writes dbName s) ops))"
proof (induction ops arbitrary: w)
  case Nil
  then show ?case by simp
next
  case (Cons opn ops)
  let ?rest = "concat (map (operation_writes dbName s) ops)"
  let ?h = "handler drv (operationType opn) dbName (collectors opn) s w"
  obtain xs where xs: "trace (snd ?h) = trace w @ xs"
      "subseq (filter is_write xs) (map (write_of (operationType opn) dbName s) (collectors opn))"
    using handler_writes by blast
  have step: "\<exists>zs. trace (snd (dispatch drv dbName ops s v)) = trace w @ zs \<and>
      subseq (filter is_write zs) (operation_writes dbName s opn @ ?rest)"
    if k: "known (operationType opn)" and v: "trace v = trace (snd ?h)" for v
  proof -
    from Cons.IH [of v] obtain ys where
      ys: "trace (snd (dispatch drv dbName ops s v)) = trace v @ ys" "subseq (filter is_write ys) ?rest"
      by blast
    have "trace (snd (dispatch drv dbName ops s v)) = trace w @ (xs @ ys)"
      using ys(1) v xs(1) by simp
    moreover have "subseq (filter is_write (xs @ ys)) (operation_writes dbName s opn @ ?rest)"
      using xs(2) ys(2) k by (simp add: operation_writes_def list_emb_append_mono)
    ultimately show ?thesis by blast
  qed
  have stop: "\<exists>zs. trace (snd ?h) = trace w @ zs \<and>
      subseq (filter is_write zs) (operation_writes dbName s opn @ ?rest)"
    if k: "known (operationType opn)"
    using xs k by (auto simp: operation_writes_def intro: list_emb_prefix)
  show ?case
  proof (cases "operationType opn = OperationType_Create")
    case True
    then have k: "known (operationType opn)" by (simp add: known_def)
    from step [OF k, of "drop_promise (fst ?h) (snd ?h)"] True show ?thesis
      by (simp add: create_handler case_prod_beta)
  next
    case notC: False
    show ?thesis
    proof (cases "known (operationType opn)")
      case True
      show ?thesis
      proof (cases "fst ?h")
        case None
        with step [OF True, of "snd ?h"] notC True show ?thesis
          by (auto simp: known_def update_handler delete_handler case_prod_beta)
      next
        case (Some e)
        with stop [OF True] notC True show ?thesis
          by (auto simp: known_def update_handler delete_handler case_prod_beta)
      qed
    next
      case False
      with Cons.IH [of w] show ?thesis
        by (simp add: known_def operation_writes_def)
    qed
  qed
qed

lemma createTransaction_writes:
  "subseq (filter is_write (issued w (snd (createTransaction drv dbName ops w))))
     (concat (map (operation_writes dbName (run_session drv w)) ops))"
proof -
  let ?s = "run_session drv w"
  let ?w3 = "w\<lparr>trace := trace w @ [Connect, StartSession, StartTransaction ?s]\<rparr>"
  obtain xs where xs: "trace (snd (dispatch drv dbName ops ?s ?w3)) = trace ?w3 @ xs"
      "subseq (filter is_write xs) (concat (map (operation_writes dbName ?s) ops))"
    using dispatch_writes by blast
  then show ?thesis
    by (simp add: createTransaction_def try_block_def issue_def issued_def Let_def
        case_prod_beta run_session_def split: option.splits)
qed

section \<open>What the catch block sees\<close>

text \<open>
  Once the session has its transaction, an exception \<open>e\<close> of the \<^verbatim>\<open>try\<close> block is followed
  by exactly one more call, the abort, and the method rejects with \<open>e\<close>, or with the
  error of the abort when the abort itself fails.
\<close>

lemma catch_aborts_then_rethrows:
  assumes "outcome drv (trace w) Connect = None"
    and "outcome drv (trace w @ [Connect]) StartSession = None"
    and "outcome drv (trace w @ [Connect, StartSession]) (StartTransaction (run_session drv w)) = None"
    and "try_block drv dbName ops (run_session drv w)
           (w\<lparr>trace := trace w @ [Connect, StartSession, StartTransaction (run_session drv w)]\<rparr>)
         = (Some e, w4)"
  shows "createTransaction drv dbName ops w =
    (case outcome drv (trace w4) (AbortTransaction (run_session drv w)) of
       None \<Rightarrow> Inl e
     | Some e' \<Rightarrow> Inl e',
     w4\<lparr>trace := trace w4 @ [AbortTransaction (run_session drv w)]\<rparr>)"
  using assms
  by (simp add: createTransaction_def issue_def run_session_def Let_def split: option.splits)

text \<open>
  The exceptions that reach the \<^verbatim>\<open>catch\<close> are those of the handles inside \<^verbatim>\<open>update\<close> and
  \<^verbatim>\<open>delete\<close> and the rejection of the awaited commit. The same exception inside \<^verbatim>\<open>create\<close>
  rejects a promise that nothing awaits: the run goes on and commits.
\<close>

lemma update_bad_collection_is_aborted:
  "createTransaction (throwing_collection (Thrown ''invalid name'')) ''shop''
     [mk_operation OperationType_Update [item [] (Some pending) (Some done')]] w0 =
   (Inl (Thrown ''invalid name''),
    \<lparr>trace = [Connect, StartSession, StartTransaction 1, Db ''shop'', Collection ''shop'' [],
       AbortTransaction 1],
     unhandled = []\<rparr>)"
  by (simp add: mk_operation_def OperationType_Create_def OperationType_Update_def
      createTransaction_def try_block_def update_def issue_def
      throwing_collection_def w0_def item_def)

lemma create_bad_collection_is_swallowed:
  "createTransaction (throwing_collection (Thrown ''invalid name'')) ''shop''
     [mk_operation OperationType_Create [item [] None (Some ann), item ''User'' None (Some ann)]] w0 =
   (Inr (),
    \<lparr>trace = [Connect, StartSession, StartTransaction 1, Db ''shop'', Collection ''shop'' [],
       CommitTransaction 1],
     unhandled = [Thrown ''invalid name'']\<rparr>)"
  by (simp add: mk_operation_def OperationType_Create_def
      createTransaction_def try_block_def create_def issue_def
      throwing_collection_def w0_def item_def drop_promise_def)

section \<open>The singleton\<close>

lemma getInstance_set:
  "static_instance st = Some r \<Longrightarrow> getInstance parse u st = (Inr r, st)"
  by (simp add: getInstance_def)

lemma getInstances_set:
  "static_instance st = Some r \<Longrightarrow>
   getInstances parse us st = (replicate (length us) (Inr r), st)"
  by (induction us) (simp_all add: getInstance_set)

lemma getInstance_returns:
  "getInstance parse u st = (Inr r, st1) \<Longrightarrow> static_instance st1 = Some r"
  by (auto simp: getInstance_def new_Transaction_def Let_def split: option.splits sum.splits)

section \<open>The properties\<close>

subsection \<open>Atomicity and error propagation\<close>

text \<open>
  C1 (all or nothing; after a failed write item nothing of the list is visible). The
  code's part in this is to ask for the abort, not the commit, once a write has failed.
  It does not: the promises of the writes are dropped, so a rejected write changes
  neither the calls that follow nor the result (\<open>write_outcomes_change_nothing\<close>, for
  every driver and every list). In the abort scenario of the
  specification (an insert into \<^verbatim>\<open>User\<close>, then a delete on \<^verbatim>\<open>Orphan\<close> that the backend
  rejects) the run issues the insert and the delete, then commits the transaction that
  holds the insert, never aborts, and resolves; the rejection is left unhandled.
\<close>

theorem abort_scenario_commits_after_rejected_delete:
  "createTransaction (rejecting_deletes (Thrown ''backend write error'')) ''shop''
     [mk_operation OperationType_Create [item ''User'' None (Some ann)],
      mk_operation OperationType_Delete [item ''Orphan'' (Some [(''id'', JStr ''missing'')]) None]] w0 =
   (Inr (), \<lparr>trace = [Connect, StartSession, StartTransaction 1,
      Db ''shop'', Collection ''shop'' ''User'', InsertOne ''shop'' ''User'' ann 1,
      Db ''shop'', Collection ''shop'' ''Orphan'',
      DeleteOne ''shop'' ''Orphan'' [(''id'', JStr ''missing'')] 1,
      CommitTransaction 1],
      unhandled = [Thrown ''backend write error'']\<rparr>)"
  by (simp add: mk_operation_def OperationType_Create_def OperationType_Update_def
      OperationType_Delete_def createTransaction_def try_block_def create_def delete_def issue_def
      rejecting_deletes_def w0_def item_def spread_def drop_promise_def)

text \<open>
  C2 (a failure raised during dispatch is followed by \<^verbatim>\<open>abortTransaction\<close> and reaches
  the caller unchanged). It fails for the failures of the writes themselves: an update
  that the backend rejects is followed by the commit, no abort is issued, and the
  method resolves instead of rejecting with the error of the write.
\<close>

theorem rejected_update_neither_aborts_nor_rethrows:
  "createTransaction (rejecting_writes (Thrown ''write conflict'')) ''shop''
     [mk_operation OperationType_Update [item ''User'' (Some pending) (Some done')]] w0 =
   (Inr (), \<lparr>trace = [Connect, StartSession, StartTransaction 1,
      Db ''shop'', Collection ''shop'' ''User'',
      UpdateOne ''shop'' ''User'' pending (Dollar_set done') 1,
      CommitTransaction 1],
      unhandled = [Thrown ''write conflict'']\<rparr>)"
  by (simp add: mk_operation_def OperationType_Create_def OperationType_Update_def
      OperationType_Delete_def createTransaction_def try_block_def update_def issue_def
      rejecting_writes_def w0_def item_def spread_def drop_promise_def)

subsection \<open>Validation\<close>

text \<open>
  C3 as the specification states it (an item that breaks the structural invariant is
  detected before any backend call for it, a validation error is raised and the
  transaction aborted) does not hold: an insert item without payload breaks the
  invariant, and the run issues \<^verbatim>\<open>insertOne\<close> for it with the empty document, commits
  and resolves.
\<close>

theorem insert_without_payload_is_not_rejected:
  "\<not> spec_item_valid OperationType_Create (item ''User'' (Some []) None) \<and>
   createTransaction ok_driver ''shop''
     [mk_operation OperationType_Create [item ''User'' (Some []) None]] w0 =
   (Inr (), \<lparr>trace = [Connect, StartSession, StartTransaction 1,
      Db ''shop'', Collection ''shop'' ''User'', InsertOne ''shop'' ''User'' [] 1,
      CommitTransaction 1],
      unhandled = []\<rparr>)"
  by (simp add: spec_item_valid_def mk_operation_def OperationType_Create_def
      createTransaction_def try_block_def create_def issue_def
      ok_driver_def w0_def item_def spread_def drop_promise_def)

text \<open>
  C3, amended: an item that breaks the structural invariant is not detected. In a run
  in which every driver call succeeds, the writes included, the two calls of such an
  item of a create, update or delete operation are issued like those of any other
  item, the write being \<open>write_of\<close> with an absent field read as the empty document; the
  transaction is not aborted, the last call of the run is the commit, the method
  resolves and no rejection is left behind.
\<close>

theorem invalid_item_is_written_and_committed:
  assumes "flawless drv" and "opn \<in> set ops" and "known (operationType opn)"
    and "c \<in> set (collectors opn)" and "\<not> spec_item_valid (operationType opn) c"
  shows "\<exists>bef aft.
    createTransaction drv dbName ops w =
      (Inr (), w\<lparr>trace := trace w @ bef
          @ [Collection dbName (collectionName c),
             write_of (operationType opn) dbName (run_session drv w) c]
          @ aft @ [CommitTransaction (run_session drv w)]\<rparr>) \<and>
    StartTransaction (run_session drv w) \<in> set bef \<and>
    (\<forall>s. AbortTransaction s \<notin> set (bef @ aft))"
proof -
  let ?s = "run_session drv w"
  let ?ic = "item_calls (operationType opn) dbName ?s"
  let ?oc = "operation_calls dbName ?s"
  from assms(2) obtain pre post where ops: "ops = pre @ opn # post"
    by (auto simp: in_set_conv_decomp)
  from assms(4) obtain cs1 cs2 where cs: "collectors opn = cs1 @ c # cs2"
    by (auto simp: in_set_conv_decomp)
  let ?bef = "[Connect, StartSession, StartTransaction ?s] @ concat (map ?oc pre)
      @ Db dbName # concat (map ?ic cs1)"
  let ?aft = "concat (map ?ic cs2) @ concat (map ?oc post)"
  have na: "AbortTransaction s \<notin> set (?oc o')" for s o'
    by (auto simp: operation_calls_def item_calls_def write_of_def)
  have ni: "AbortTransaction s \<notin> set (?ic c')" for s c'
    by (auto simp: item_calls_def write_of_def)
  have "?oc opn = Db dbName # concat (map ?ic cs1) @ ?ic c @ concat (map ?ic cs2)"
    using assms(3) cs by (simp add: operation_calls_def)
  then have "createTransaction drv dbName ops w =
      (Inr (), w\<lparr>trace := trace w @ ?bef
          @ [Collection dbName (collectionName c), write_of (operationType opn) dbName ?s c]
          @ ?aft @ [CommitTransaction ?s]\<rparr>)"
    using createTransaction_flawless [OF assms(1), of dbName ops w] ops
    by (simp add: item_calls_def)
  moreover have "StartTransaction ?s \<in> set ?bef" by simp
  moreover have "\<forall>s. AbortTransaction s \<notin> set (?bef @ ?aft)"
    using na ni by auto
  ultimately show ?thesis by blast
qed

theorem invalid_item_is_written_and_committed_witness:
  "\<exists>bef aft.
    createTransaction ok_driver ''shop''
        [mk_operation OperationType_Update [item ''User'' None (Some done')]] w0 =
      (Inr (), \<lparr>trace = bef
          @ [Collection ''shop'' ''User'', UpdateOne ''shop'' ''User'' [] (Dollar_set done') 1]
          @ aft @ [CommitTransaction 1], unhandled = []\<rparr>) \<and>
    StartTransaction 1 \<in> set bef \<and>
    (\<forall>s. AbortTransaction s \<notin> set (bef @ aft))"
  using invalid_item_is_written_and_committed [where drv = ok_driver
      and opn = "mk_operation OperationType_Update [item ''User'' None (Some done')]"
      and ops = "[mk_operation OperationType_Update [item ''User'' None (Some done')]]"
      and c = "item ''User'' None (Some done')" and dbName = "''shop''" and w = w0]
  by (simp add: flawless_def ok_driver_def known_def mk_operation_def write_of_def item_def
      spec_item_valid_def spread_def run_session_def w0_def
      OperationType_Create_def OperationType_Update_def)

subsection \<open>The three kinds of write\<close>





text \<open>
  C10: a create item without \<^verbatim>\<open>insert\<close> field does not make the method fail; the empty
  document is inserted into the named collection.
\<close>

theorem create_without_insert_inserts_empty_document:
  assumes "quiet drv" and "opn \<in> set ops" and "operationType opn = OperationType_Create"
    and "c \<in> set (collectors opn)" and "insert' (data c) = None"
  shows "fst (createTransaction drv dbName ops w) = Inr () \<and>
    (\<exists>bef aft.
      issued w (snd (createTransaction drv dbName ops w)) =
        bef @ [Collection dbName (collectionName c),
               InsertOne dbName (collectionName c) [] (run_session drv w)] @ aft \<and>
      StartTransaction (run_session drv w) \<in> set bef \<and>
      CommitTransaction (run_session drv w) \<in> set aft)"
proof -
  have k: "known (operationType opn)"
    using assms(3) by (simp add: known_def)
  have "fst (createTransaction drv dbName ops w) = Inr ()"
    using createTransaction_quiet [OF assms(1), of dbName ops w] by simp
  moreover from item_calls_issued [OF assms(1,2) k assms(4), where dbName = dbName and w = w]
  have "\<exists>bef aft.
      issued w (snd (createTransaction drv dbName ops w)) =
        bef @ [Collection dbName (collectionName c),
               InsertOne dbName (collectionName c) [] (run_session drv w)] @ aft \<and>
      StartTransaction (run_session drv w) \<in> set bef \<and>
      CommitTransaction (run_session drv w) \<in> set aft"
    using assms(3,5) by (simp add: item_calls_def write_of_def spread_def)
  ultimately show ?thesis by blast
qed

theorem create_without_insert_inserts_empty_document_witness:
  "fst (createTransaction ok_driver ''shop''
      [mk_operation OperationType_Create [item ''User'' (Some ann) None]] w0) = Inr () \<and>
   (\<exists>bef aft.
      issued w0 (snd (createTransaction ok_driver ''shop''
          [mk_operation OperationType_Create [item ''User'' (Some ann) None]] w0)) =
        bef @ [Collection ''shop'' ''User'', InsertOne ''shop'' ''User'' [] 1] @ aft \<and>
      StartTransaction 1 \<in> set bef \<and> CommitTransaction 1 \<in> set aft)"
  using create_without_insert_inserts_empty_document [where drv = ok_driver
      and opn = "mk_operation OperationType_Create [item ''User'' (Some ann) None]"
      and ops = "[mk_operation OperationType_Create [item ''User'' (Some ann) None]]"
      and c = "item ''User'' (Some ann) None" and dbName = "''shop''" and w = w0]
  by (simp add: quiet_def ok_driver_def mk_operation_def item_def run_session_def w0_def)

subsection \<open>Order, empty lists and unknown operation types\<close>

text \<open>
  C6: the writes are issued one after the other in list order. On any driver the
  sequence of write calls of one run is a subsequence of the concatenation, over the
  operations in list order, of the writes of their items in list order; on a quiet
  driver it is that concatenation.
\<close>

theorem writes_issued_in_list_order:
  "subseq (filter is_write (issued w (snd (createTransaction drv dbName ops w))))
     (concat (map (operation_writes dbName (run_session drv w)) ops)) \<and>
   (quiet drv \<longrightarrow>
      filter is_write (issued w (snd (createTransaction drv dbName ops w))) =
      concat (map (operation_writes dbName (run_session drv w)) ops))"
proof (intro conjI impI)
  show "subseq (filter is_write (issued w (snd (createTransaction drv dbName ops w))))
     (concat (map (operation_writes dbName (run_session drv w)) ops))"
    by (rule createTransaction_writes)
next
  assume "quiet drv"
  from createTransaction_quiet [OF this, of dbName ops w]
  show "filter is_write (issued w (snd (createTransaction drv dbName ops w))) =
      concat (map (operation_writes dbName (run_session drv w)) ops)"
    by (simp add: filter_concat_operation_calls)
qed

theorem writes_issued_in_list_order_witness:
  "filter is_write (issued w0 (snd (createTransaction (rejecting_writes (Thrown ''E'')) ''shop''
      [mk_operation OperationType_Create [item ''User'' None (Some ann), item ''Log'' None (Some [])],
       mk_operation OperationType_Update [item ''User'' (Some pending) (Some done')],
       mk_operation OperationType_Delete [item ''Orphan'' (Some ann) None]] w0))) =
   [InsertOne ''shop'' ''User'' ann 1, InsertOne ''shop'' ''Log'' [] 1,
    UpdateOne ''shop'' ''User'' pending (Dollar_set done') 1,
    DeleteOne ''shop'' ''Orphan'' ann 1]"
  using writes_issued_in_list_order [where drv = "rejecting_writes (Thrown ''E'')"
      and dbName = "''shop''" and w = w0 and ops =
      "[mk_operation OperationType_Create [item ''User'' None (Some ann), item ''Log'' None (Some [])],
       mk_operation OperationType_Update [item ''User'' (Some pending) (Some done')],
       mk_operation OperationType_Delete [item ''Orphan'' (Some ann) None]]"]
  by (simp add: quiet_def rejecting_writes_def mk_operation_def item_def operation_writes_def
      known_def write_of_def spread_def run_session_def w0_def
      OperationType_Update_def OperationType_Create_def OperationType_Delete_def)

text \<open>
  C7: with an empty list of operations the method issues no write; when the
  connection, the session, the start of the transaction and the commit succeed, it
  issues exactly these four calls and resolves.
\<close>

theorem empty_operations_commit_at_once:
  "filter is_write (issued w (snd (createTransaction drv dbName [] w))) = [] \<and>
   (outcome drv (trace w) Connect = None \<longrightarrow>
    outcome drv (trace w @ [Connect]) StartSession = None \<longrightarrow>
    outcome drv (trace w @ [Connect, StartSession]) (StartTransaction (run_session drv w)) = None \<longrightarrow>
    outcome drv (trace w @ [Connect, StartSession, StartTransaction (run_session drv w)])
      (CommitTransaction (run_session drv w)) = None \<longrightarrow>
    createTransaction drv dbName [] w =
      (Inr (), w\<lparr>trace := trace w @ [Connect, StartSession,
         StartTransaction (run_session drv w), CommitTransaction (run_session drv w)]\<rparr>))"
  by (simp add: createTransaction_def try_block_def issue_def issued_def run_session_def Let_def
      split: option.splits)

theorem empty_operations_commit_at_once_witness:
  "createTransaction (rejecting_writes (Thrown ''E'')) ''shop'' [] w0 =
     (Inr (), \<lparr>trace = [Connect, StartSession, StartTransaction 1, CommitTransaction 1],
        unhandled = []\<rparr>)"
  using empty_operations_commit_at_once [of w0 "rejecting_writes (Thrown ''E'')" "''shop''"]
  by (simp add: rejecting_writes_def run_session_def w0_def)

text \<open>
  C9: an operation whose type is none of \<^verbatim>\<open>CREATE\<close>, \<^verbatim>\<open>UPDATE\<close>, \<^verbatim>\<open>DELETE\<close> is skipped in
  silence: the run, its calls and its result are those of the list without it.
\<close>

theorem unknown_operationType_skipped:
  "\<not> known (operationType opn) \<Longrightarrow>
   createTransaction drv dbName (pre @ opn # post) w = createTransaction drv dbName (pre @ post) w"
proof -
  assume u: "\<not> known (operationType opn)"
  have "dispatch drv dbName (pre @ opn # post) s w' = dispatch drv dbName (pre @ post) s w'" for s w'
    by (simp only: dispatch_append dispatch_unknown [OF u])
  then have tb: "try_block drv dbName (pre @ opn # post) = try_block drv dbName (pre @ post)"
    by (intro ext) (simp add: try_block_def)
  show ?thesis
    unfolding createTransaction_def tb by (rule refl)
qed

theorem unknown_operationType_skipped_witness:
  "createTransaction ok_driver ''shop''
     [mk_operation OperationType_Create [item ''User'' None (Some ann)],
      mk_operation ''UPSERT'' [item ''User'' (Some pending) (Some done')]] w0 =
   (Inr (), \<lparr>trace = [Connect, StartSession, StartTransaction 1, Db ''shop'',
      Collection ''shop'' ''User'', InsertOne ''shop'' ''User'' ann 1, CommitTransaction 1],
      unhandled = []\<rparr>)"
  using unknown_operationType_skipped [of "mk_operation ''UPSERT'' [item ''User'' (Some pending) (Some done')]"
      ok_driver "''shop''" "[mk_operation OperationType_Create [item ''User'' None (Some ann)]]" "[]" w0]
  by (simp add: known_def mk_operation_def OperationType_Create_def OperationType_Update_def
      OperationType_Delete_def createTransaction_def try_block_def create_def issue_def
      ok_driver_def w0_def item_def spread_def drop_promise_def)

subsection \<open>The singleton\<close>

text \<open>
  C8: once \<^verbatim>\<open>getInstance(u1)\<close> has returned an instance, every later call, whatever its
  URI, returns the same reference and changes nothing; and when the field was unset
  before the first call, that instance and its client are built from \<open>u1\<close>.
\<close>

theorem getInstance_singleton:
  assumes "getInstance parse u1 st = (Inr r, st1)"
  shows "getInstance parse u2 st1 = (Inr r, st1) \<and>
    getInstances parse us st1 = (replicate (length us) (Inr r), st1) \<and>
    (static_instance st = None \<longrightarrow>
       r < length (objects st1) \<and>
       objects st1 ! r = \<lparr>mongodbUri = u1, client = MongoClient u1\<rparr>)"
proof -
  have s: "static_instance st1 = Some r"
    using assms by (rule getInstance_returns)
  have "static_instance st = None \<longrightarrow>
       r < length (objects st1) \<and>
       objects st1 ! r = \<lparr>mongodbUri = u1, client = MongoClient u1\<rparr>"
    using assms
    by (auto simp: getInstance_def new_Transaction_def Let_def split: option.splits sum.splits)
  with s show ?thesis
    by (simp add: getInstance_set getInstances_set)
qed

theorem getInstance_singleton_witness:
  "getInstance (\<lambda>u. None) ''mongodb://b''
     (snd (getInstance (\<lambda>u. None) ''mongodb://a'' initial_statics)) =
     (Inr 0, snd (getInstance (\<lambda>u. None) ''mongodb://a'' initial_statics)) \<and>
   getInstances (\<lambda>u. None) [''mongodb://b'', ''mongodb://c'']
     (snd (getInstance (\<lambda>u. None) ''mongodb://a'' initial_statics)) =
     ([Inr 0, Inr 0], snd (getInstance (\<lambda>u. None) ''mongodb://a'' initial_statics)) \<and>
   objects (snd (getInstance (\<lambda>u. None) ''mongodb://a'' initial_statics)) ! 0 =
     \<lparr>mongodbUri = ''mongodb://a'', client = MongoClient ''mongodb://a''\<rparr>"
  using getInstance_singleton [where parse = "\<lambda>u. None" and ?u1.0 = "''mongodb://a''"
      and st = initial_statics and r = 0 and ?u2.0 = "''mongodb://b''"
      and us = "[''mongodb://b'', ''mongodb://c'']"
      and ?st1.0 = "snd (getInstance (\<lambda>u. None) ''mongodb://a'' initial_statics)"]
  by (simp add: getInstance_def new_Transaction_def initial_statics_def)

end
